theory Spec2Isabelle
  imports Main "HOL-Library.Multiset"
begin

section \<open>useSort (src/src/data/utils/useSort.ts)\<close>

subsection \<open>Array.prototype.sort\<close>

text \<open>
  A comparator \<open>(a, b) => number\<close> is a function to \<open>int\<close>: negative puts \<open>a\<close> before
  \<open>b\<close>, positive after, zero leaves them as they are. (A comparator that answers \<open>NaN\<close> is
  read by the engine as \<open>0\<close>, so such an answer is the value \<open>0\<close> here.)

  \<open>Array.prototype.sort\<close> is a built-in. ECMAScript fixes its result for a consistent
  comparator (the stable ascending order) and leaves the order to the engine otherwise. The
  model is the stable insertion sort, with the order of arguments that V8 (Node.js, where
  the tests of the repository run) uses: the elements are taken from left to right, and the
  new element \<open>x\<close> moves left past an element \<open>y\<close> of the sorted part as long as
  \<open>cmp x y < 0\<close>. In \<open>ins\<close> the sorted part is held last element first. The elements are
  values of \<open>T\<close>; an \<open>undefined\<close> element, which \<open>sort\<close> moves to the end without asking
  the comparator, is not among them.
\<close>

type_synonym 'a comparator = "'a \<Rightarrow> 'a \<Rightarrow> int"

fun ins :: "'a comparator \<Rightarrow> 'a \<Rightarrow> 'a list \<Rightarrow> 'a list" where
  "ins cmp x [] = [x]"
| "ins cmp x (y # ds) = (if cmp x y < 0 then y # ins cmp x ds else x # y # ds)"

fun sort_loop :: "'a comparator \<Rightarrow> 'a list \<Rightarrow> 'a list \<Rightarrow> 'a list" where
  "sort_loop cmp ds [] = rev ds"
| "sort_loop cmp ds (x # xs) = sort_loop cmp (ins cmp x ds) xs"

definition array_sort :: "'a comparator \<Rightarrow> 'a list \<Rightarrow> 'a list" where
  "array_sort cmp xs = sort_loop cmp [] xs"

text \<open>
  A consistent comparator on a set of values, as ECMAScript asks of \<open>comparefn\<close>: the sign
  of \<open>cmp a b\<close> is opposite to the sign of \<open>cmp b a\<close>, and "not after" is transitive.
\<close>

definition consistent :: "'a comparator \<Rightarrow> 'a set \<Rightarrow> bool" where
  "consistent cmp S \<longleftrightarrow>
     (\<forall>a\<in>S. \<forall>b\<in>S. (cmp a b < 0) = (0 < cmp b a)) \<and>
     (\<forall>a\<in>S. \<forall>b\<in>S. \<forall>c\<in>S. cmp a b \<le> 0 \<and> cmp b c \<le> 0 \<longrightarrow> cmp a c \<le> 0)"

text \<open>The order of a sorted array: no element is strictly before an earlier one.\<close>

definition ordered_by :: "'a comparator \<Rightarrow> 'a list \<Rightarrow> bool" where
  "ordered_by cmp xs = sorted_wrt (\<lambda>a b. \<not> cmp b a < 0) xs"

subsection \<open>The composable\<close>

datatype sort_order = Asc | Desc

record 'a SortOption =
  opt_key :: string
  opt_label :: string
  opt_compareFn :: "'a comparator option"

text \<open>
  The state of one \<open>useSort(items, compareFn)\<close> instance: the two arguments, captured by
  the closure, and the four refs. \<open>None\<close> is \<open>undefined\<close>.
\<close>

record ('a, 'k) useSort_state =
  items :: "'a list"
  compareFn :: "'a comparator option"
  sortBy :: "'k option"
  sortOrder :: sort_order
  currentSort :: "('k \<times> sort_order) option"
  sortOptions :: "'a SortOption list"

definition useSort :: "'a list \<Rightarrow> 'a comparator option \<Rightarrow> ('a, 'k) useSort_state" where
  "useSort its cf =
     \<lparr>items = its, compareFn = cf, sortBy = None, sortOrder = Asc,
      currentSort = None, sortOptions = []\<rparr>"

text \<open>
  \<^verbatim>\<open>if (!compareFn) return [...items]; return [...items].sort(compareFn)\<close>:
  the contents of the array that \<open>sortedItems\<close> evaluates to.
\<close>

definition sortedItems :: "('a, 'k) useSort_state \<Rightarrow> 'a list" where
  "sortedItems st =
     (case compareFn st of
        None \<Rightarrow> items st
      | Some f \<Rightarrow> array_sort f (items st))"

definition clearSort :: "('a, 'k) useSort_state \<Rightarrow> ('a, 'k) useSort_state" where
  "clearSort st = st\<lparr>sortBy := None, sortOrder := Asc, currentSort := None\<rparr>"

definition isSortedBy :: "('a, 'k) useSort_state \<Rightarrow> 'k \<Rightarrow> bool" where
  "isSortedBy st k = (sortBy st = Some k)"

definition getSortDirection :: "('a, 'k) useSort_state \<Rightarrow> 'k \<Rightarrow> sort_order option" where
  "getSortDirection st k = (if isSortedBy st k then Some (sortOrder st) else None)"

definition addSortOption ::
  "'a SortOption \<Rightarrow> ('a, 'k) useSort_state \<Rightarrow> ('a, 'k) useSort_state" where
  "addSortOption opt st = st\<lparr>sortOptions := sortOptions st @ [opt]\<rparr>"

definition removeSortOption ::
  "string \<Rightarrow> ('a, 'k) useSort_state \<Rightarrow> ('a, 'k) useSort_state" where
  "removeSortOption k st =
     st\<lparr>sortOptions := filter (\<lambda>opt. opt_key opt \<noteq> k) (sortOptions st)\<rparr>"

text \<open>
  What a caller can do to an instance between two reads of \<open>sortedItems\<close>: assign one of
  the returned refs, or call one of the returned functions.
\<close>

datatype ('a, 'k) sort_action =
    SetSortBy "'k option"
  | SetSortOrder sort_order
  | SetCurrentSort "('k \<times> sort_order) option"
  | ClearSort
  | AddSortOption "'a SortOption"
  | RemoveSortOption string

fun sort_step :: "('a, 'k) sort_action \<Rightarrow> ('a, 'k) useSort_state \<Rightarrow> ('a, 'k) useSort_state" where
  "sort_step (SetSortBy k) st = st\<lparr>sortBy := k\<rparr>"
| "sort_step (SetSortOrder d) st = st\<lparr>sortOrder := d\<rparr>"
| "sort_step (SetCurrentSort c) st = st\<lparr>currentSort := c\<rparr>"
| "sort_step ClearSort st = clearSort st"
| "sort_step (AddSortOption opt) st = addSortOption opt st"
| "sort_step (RemoveSortOption k) st = removeSortOption k st"

definition sort_run :: "('a, 'k) sort_action list \<Rightarrow> ('a, 'k) useSort_state \<Rightarrow> ('a, 'k) useSort_state" where
  "sort_run acts st = fold sort_step acts st"

subsection \<open>The arrays of useSort as objects of a store\<close>

text \<open>
  JavaScript arrays are mutable objects reached through references, and \<open>sort\<close> works in
  place. The store maps a reference to the contents of its array; \<open>nextRef\<close> is the first
  reference not yet handed out.
\<close>

type_synonym ref = nat

record 'a store =
  arrays :: "ref \<Rightarrow> 'a list"
  nextRef :: ref

text \<open>\<^verbatim>\<open>[...items]\<close>: a new array with the elements of \<open>items\<close>.\<close>

definition spread :: "'a store \<Rightarrow> ref \<Rightarrow> 'a store \<times> ref" where
  "spread h r =
     (h\<lparr>arrays := (arrays h)(nextRef h := arrays h r), nextRef := Suc (nextRef h)\<rparr>,
      nextRef h)"

text \<open>\<^verbatim>\<open>a.sort(compareFn)\<close>: sorts the array \<open>a\<close> in place and returns \<open>a\<close>.\<close>

definition sort_in_place :: "'a store \<Rightarrow> ref \<Rightarrow> 'a comparator \<Rightarrow> 'a store \<times> ref" where
  "sort_in_place h r cmp = (h\<lparr>arrays := (arrays h)(r := array_sort cmp (arrays h r))\<rparr>, r)"

definition sortedItems_store ::
  "'a store \<Rightarrow> ref \<Rightarrow> 'a comparator option \<Rightarrow> 'a store \<times> ref" where
  "sortedItems_store h its cf =
     (case cf of
        None \<Rightarrow> spread h its
      | Some f \<Rightarrow> (case spread h its of (h1, c) \<Rightarrow> sort_in_place h1 c f))"

subsection \<open>The rows and comparators of src/src/data/utils/useSort.test.ts\<close>

record User =
  user_id :: int
  name :: string
  age :: int
  active :: bool
  createdAt :: int

text \<open>The three users of the test file; \<open>createdAt\<close> in milliseconds since the epoch.\<close>

definition alice :: User where
  "alice = \<lparr>user_id = 1, name = ''Alice'', age = 30, active = True, createdAt = 1672531200000\<rparr>"

definition bob :: User where
  "bob = \<lparr>user_id = 2, name = ''Bob'', age = 25, active = False, createdAt = 1672617600000\<rparr>"

definition charlie :: User where
  "charlie = \<lparr>user_id = 3, name = ''Charlie'', age = 35, active = True, createdAt = 1672704000000\<rparr>"

definition users :: "User list" where
  "users = [alice, bob, charlie]"

text \<open>\<^verbatim>\<open>(a, b) => a.age - b.age\<close>, the comparator of the test "should sort by number field".\<close>

definition by_age :: "User comparator" where
  "by_age a b = age a - age b"

text \<open>\<^verbatim>\<open>() => -1\<close>: a comparator that puts its first argument first, whatever it is.\<close>

definition always_before :: "int comparator" where
  "always_before a b = - 1"

section \<open>The paginate stage (usePagination, useTable)\<close>

text \<open>
  Modelled from the spec: \<open>src/data/tables/usePagination.ts\<close> and
  \<open>src/data/tables/useTable.ts\<close> are exported by \<open>src/index.ts\<close> and called by the demo
  component, but are not among the sources. The spec's paginate stage: the state is the
  current page (1-based) and the page size (at least 1); the total page count is
  \<open>ceil(totalItems / pageSize)\<close>, at least 1 page even when the collection is empty;
  \<open>setPage\<close> clamps the requested page into \<open>[1, totalPages]\<close>.
\<close>

text \<open>
  Modelled from the spec: the pagination state \<open>{ currentPage (1-based), pageSize }\<close> of
  the absent \<open>usePagination\<close>, with the filtered collection it pages.
\<close>

record 'a pagination_state =
  filteredData :: "'a list"
  currentPage :: int
  pageSize :: int

text \<open>Modelled from the spec: the total item count of the absent \<open>usePagination\<close>.\<close>

definition totalItems :: "'a pagination_state \<Rightarrow> int" where
  "totalItems st = int (length (filteredData st))"

text \<open>
  Modelled from the spec: the total page count of the absent \<open>usePagination\<close>,
  \<open>ceil(totalItems / pageSize)\<close> and at least 1.
\<close>

definition totalPages :: "'a pagination_state \<Rightarrow> int" where
  "totalPages st = max 1 ((totalItems st + pageSize st - 1) div pageSize st)"

text \<open>
  Modelled from the spec: \<open>setPage\<close> of the absent \<open>usePagination\<close>, which clamps the
  requested page into \<open>[1, totalPages]\<close>.
\<close>

definition setPage :: "int \<Rightarrow> 'a pagination_state \<Rightarrow> 'a pagination_state" where
  "setPage n st = st\<lparr>currentPage := max 1 (min (totalPages st) n)\<rparr>"

section \<open>Browser event listeners and timers\<close>

text \<open>
  The part of the browser the composables below talk to. An event target keeps a list of
  listeners; \<open>addEventListener\<close> appends one unless a listener with the same type, callback
  and capture flag is there already, and \<open>removeEventListener\<close> removes the listener with
  that type, callback and capture flag (the \<open>passive\<close> option takes no part in the match;
  none of the composables asks for capture). A callback is a function object: two callbacks
  are the same when they are the same object, so a callback is the reference of its closure.
  Numbers of the DOM (sizes, scroll offsets, the clock) are integers here.
\<close>

datatype event_target = Window | Document | Element nat

type_synonym fn_ref = nat

record listener =
  l_target :: event_target
  l_type :: string
  l_callback :: fn_ref
  l_capture :: bool
  l_passive :: bool

record element_metrics =
  scrollLeft :: int
  scrollTop :: int
  scrollWidth :: int
  clientWidth :: int
  scrollHeight :: int
  clientHeight :: int

record browser =
  listeners :: "listener list"
  timers :: "nat list"
  nextTimer :: nat
  innerWidth :: int
  innerHeight :: int
  scrollX :: int
  scrollY :: int
  documentElement :: element_metrics
  element :: "event_target \<Rightarrow> element_metrics"
  now :: int

definition matches :: "event_target \<Rightarrow> string \<Rightarrow> fn_ref \<Rightarrow> listener \<Rightarrow> bool" where
  "matches t ty cb l \<longleftrightarrow>
     l_target l = t \<and> l_type l = ty \<and> l_callback l = cb \<and> l_capture l = False"

definition addEventListener ::
  "event_target \<Rightarrow> string \<Rightarrow> fn_ref \<Rightarrow> bool \<Rightarrow> browser \<Rightarrow> browser" where
  "addEventListener t ty cb passive b =
     (if list_ex (matches t ty cb) (listeners b) then b
      else b\<lparr>listeners := listeners b @
        [\<lparr>l_target = t, l_type = ty, l_callback = cb, l_capture = False, l_passive = passive\<rparr>]\<rparr>)"

definition removeEventListener :: "event_target \<Rightarrow> string \<Rightarrow> fn_ref \<Rightarrow> browser \<Rightarrow> browser" where
  "removeEventListener t ty cb b =
     b\<lparr>listeners := filter (\<lambda>l. \<not> matches t ty cb l) (listeners b)\<rparr>"

text \<open>
  \<open>setTimeout\<close> hands out a new timer id and \<open>clearTimeout\<close> cancels the timer of an id;
  \<open>clearTimeout(undefined)\<close> does nothing. What a timer runs when it fires is not part of
  the model.
\<close>

definition setTimeout :: "browser \<Rightarrow> nat \<times> browser" where
  "setTimeout b =
     (nextTimer b, b\<lparr>timers := timers b @ [nextTimer b], nextTimer := Suc (nextTimer b)\<rparr>)"

definition clearTimeout :: "nat option \<Rightarrow> browser \<Rightarrow> browser" where
  "clearTimeout tid b =
     (case tid of None \<Rightarrow> b | Some n \<Rightarrow> b\<lparr>timers := filter (\<lambda>i. i \<noteq> n) (timers b)\<rparr>)"

section \<open>useScroll (src/unnamed/part_000)\<close>

datatype direction = Up | Down | Left | Right

text \<open>The object of the ref \<open>arrivedState\<close>, with the fields \<open>top\<close>, \<open>bottom\<close>, \<open>left\<close>, \<open>right\<close>.\<close>

record arrived =
  top_edge :: bool
  bottom_edge :: bool
  left_edge :: bool
  right_edge :: bool

text \<open>
  One instance: the target, the closure \<open>updateScrollState\<close> (its reference), the refs
  (\<open>scroll_x\<close> and \<open>scroll_y\<close> are the refs \<open>x\<close> and \<open>y\<close>) and the local variables.
\<close>

record useScroll_state =
  target :: event_target
  updateScrollState_ref :: fn_ref
  scroll_x :: int
  scroll_y :: int
  isScrolling :: bool
  scrollDirection :: "direction option"
  arrivedState :: arrived
  lastScrollX :: int
  lastScrollY :: int
  scrollTimeout :: "nat option"

definition useScroll :: "event_target option \<Rightarrow> fn_ref \<Rightarrow> useScroll_state" where
  "useScroll tgt f =
     \<lparr>target = (case tgt of None \<Rightarrow> Window | Some t \<Rightarrow> t),
      updateScrollState_ref = f,
      scroll_x = 0, scroll_y = 0, isScrolling = False, scrollDirection = None,
      arrivedState = \<lparr>top_edge = True, bottom_edge = False, left_edge = True, right_edge = False\<rparr>,
      lastScrollX = 0, lastScrollY = 0, scrollTimeout = None\<rparr>"

text \<open>The position as \<open>(x, y, maxX, maxY)\<close>.\<close>

definition getScrollPosition :: "useScroll_state \<Rightarrow> browser \<Rightarrow> int \<times> int \<times> int \<times> int" where
  "getScrollPosition s b =
     (if target s = Window then
        (scrollX b, scrollY b,
         scrollWidth (documentElement b) - innerWidth b,
         scrollHeight (documentElement b) - innerHeight b)
      else
        (scrollLeft (element b (target s)), scrollTop (element b (target s)),
         scrollWidth (element b (target s)) - clientWidth (element b (target s)),
         scrollHeight (element b (target s)) - clientHeight (element b (target s))))"

definition updateScrollState :: "useScroll_state \<times> browser \<Rightarrow> useScroll_state \<times> browser" where
  "updateScrollState sb =
     (case sb of (s, b) \<Rightarrow>
      (case getScrollPosition s b of (currentX, currentY, maxX, maxY) \<Rightarrow>
       (case setTimeout (clearTimeout (scrollTimeout s) b) of (tid, b') \<Rightarrow>
         (s\<lparr>scroll_x := currentX, scroll_y := currentY,
            scrollDirection :=
              (if currentY > lastScrollY s then Some Down
               else if currentY < lastScrollY s then Some Up
               else if currentX > lastScrollX s then Some Right
               else if currentX < lastScrollX s then Some Left
               else scrollDirection s),
            arrivedState :=
              \<lparr>top_edge = (currentY \<le> 0), bottom_edge = (currentY \<ge> maxY),
               left_edge = (currentX \<le> 0), right_edge = (currentX \<ge> maxX)\<rparr>,
            lastScrollX := currentX, lastScrollY := currentY,
            isScrolling := True, scrollTimeout := Some tid\<rparr>,
          b'))))"

definition useScroll_mounted :: "useScroll_state \<times> browser \<Rightarrow> useScroll_state \<times> browser" where
  "useScroll_mounted sb =
     (case updateScrollState sb of (s, b) \<Rightarrow>
        (s, addEventListener (target s) ''scroll'' (updateScrollState_ref s) True b))"

definition useScroll_unmounted :: "useScroll_state \<times> browser \<Rightarrow> useScroll_state \<times> browser" where
  "useScroll_unmounted sb =
     (case sb of (s, b) \<Rightarrow>
        (s, clearTimeout (scrollTimeout s)
              (removeEventListener (target s) ''scroll'' (updateScrollState_ref s) b)))"

section \<open>useWindowSize (src/unnamed/part_003)\<close>

record useWindowSize_state =
  updateSize_ref :: fn_ref
  width :: int
  height :: int

definition useWindowSize :: "int option \<Rightarrow> int option \<Rightarrow> fn_ref \<Rightarrow> useWindowSize_state" where
  "useWindowSize initialWidth initialHeight f =
     \<lparr>updateSize_ref = f,
      width = (case initialWidth of None \<Rightarrow> 0 | Some w \<Rightarrow> w),
      height = (case initialHeight of None \<Rightarrow> 0 | Some h \<Rightarrow> h)\<rparr>"

definition updateSize :: "useWindowSize_state \<times> browser \<Rightarrow> useWindowSize_state \<times> browser" where
  "updateSize sb =
     (case sb of (s, b) \<Rightarrow> (s\<lparr>width := innerWidth b, height := innerHeight b\<rparr>, b))"

definition useWindowSize_mounted ::
  "useWindowSize_state \<times> browser \<Rightarrow> useWindowSize_state \<times> browser" where
  "useWindowSize_mounted sb =
     (case updateSize sb of (s, b) \<Rightarrow>
        (s, addEventListener Window ''resize'' (updateSize_ref s) True b))"

definition useWindowSize_unmounted ::
  "useWindowSize_state \<times> browser \<Rightarrow> useWindowSize_state \<times> browser" where
  "useWindowSize_unmounted sb =
     (case sb of (s, b) \<Rightarrow> (s, removeEventListener Window ''resize'' (updateSize_ref s) b))"

section \<open>useIdle (src/src/events/useIdle.ts)\<close>

record useIdle_state =
  timeout :: int
  events :: "string list"
  initialState :: bool
  handleActivity_ref :: fn_ref
  idle :: bool
  lastActive :: int
  timeoutId :: "nat option"

definition default_events :: "string list" where
  "default_events = [''mousedown'', ''mousemove'', ''keypress'', ''scroll'', ''touchstart'', ''click'']"

text \<open>\<open>lastActive\<close> starts as \<open>Date.now()\<close> at the call of \<open>useIdle\<close>.\<close>

definition useIdle ::
  "int option \<Rightarrow> string list option \<Rightarrow> bool option \<Rightarrow> fn_ref \<Rightarrow> browser \<Rightarrow> useIdle_state" where
  "useIdle t evs init f b =
     \<lparr>timeout = (case t of None \<Rightarrow> 60000 | Some n \<Rightarrow> n),
      events = (case evs of None \<Rightarrow> default_events | Some es \<Rightarrow> es),
      initialState = (case init of None \<Rightarrow> False | Some i \<Rightarrow> i),
      handleActivity_ref = f,
      idle = (case init of None \<Rightarrow> False | Some i \<Rightarrow> i),
      lastActive = now b,
      timeoutId = None\<rparr>"

text \<open>\<^verbatim>\<open>if (timeoutId)\<close>: \<open>null\<close> is falsy, and so would a timer id \<open>0\<close> be.\<close>

definition timer_truthy :: "nat option \<Rightarrow> bool" where
  "timer_truthy tid = (case tid of None \<Rightarrow> False | Some n \<Rightarrow> n \<noteq> 0)"

definition handleActivity :: "useIdle_state \<times> browser \<Rightarrow> useIdle_state \<times> browser" where
  "handleActivity sb =
     (case sb of (s, b) \<Rightarrow>
      (case setTimeout (if timer_truthy (timeoutId s) then clearTimeout (timeoutId s) b else b)
       of (tid, b') \<Rightarrow>
         (s\<lparr>lastActive := now b, idle := (if idle s then False else idle s),
            timeoutId := Some tid\<rparr>, b')))"

definition start :: "useIdle_state \<times> browser \<Rightarrow> useIdle_state \<times> browser" where
  "start sb = handleActivity sb"

definition stop :: "useIdle_state \<times> browser \<Rightarrow> useIdle_state \<times> browser" where
  "stop sb =
     (case sb of (s, b) \<Rightarrow>
        (if timer_truthy (timeoutId s)
         then (s\<lparr>timeoutId := None\<rparr>, clearTimeout (timeoutId s) b)
         else (s, b)))"

definition useIdle_mounted :: "useIdle_state \<times> browser \<Rightarrow> useIdle_state \<times> browser" where
  "useIdle_mounted sb =
     (case (if \<not> initialState (fst sb) then start sb else sb) of (s, b) \<Rightarrow>
        (s, fold (\<lambda>event. addEventListener Document event (handleActivity_ref s) True)
              (events s) b))"

definition useIdle_unmounted :: "useIdle_state \<times> browser \<Rightarrow> useIdle_state \<times> browser" where
  "useIdle_unmounted sb =
     (case stop sb of (s, b) \<Rightarrow>
        (s, fold (\<lambda>event. removeEventListener Document event (handleActivity_ref s))
              (events s) b))"

text \<open>
  The listeners that a callback has on a target for one of the given event types.
\<close>

definition subscribed :: "event_target \<Rightarrow> string list \<Rightarrow> fn_ref \<Rightarrow> browser \<Rightarrow> listener list" where
  "subscribed t tys cb b =
     filter (\<lambda>l. list_ex (\<lambda>ty. matches t ty cb l) tys) (listeners b)"

text \<open>A closure that was just created is the callback of no listener.\<close>

definition fresh :: "fn_ref \<Rightarrow> browser \<Rightarrow> bool" where
  "fresh cb b = (\<not> list_ex (\<lambda>l. l_callback l = cb) (listeners b))"

text \<open>A browser with no listener and no timer, and a page scrolled down by 120.\<close>

definition metrics0 :: element_metrics where
  "metrics0 = \<lparr>scrollLeft = 0, scrollTop = 120, scrollWidth = 800, clientWidth = 800,
     scrollHeight = 2000, clientHeight = 600\<rparr>"

definition browser0 :: browser where
  "browser0 = \<lparr>listeners = [], timers = [], nextTimer = 1, innerWidth = 1024, innerHeight = 768,
     scrollX = 0, scrollY = 120, documentElement = metrics0, element = (\<lambda>t. metrics0),
     now = 1000\<rparr>"

section \<open>useLocalStorage (src/unnamed/part_001)\<close>

text \<open>
  An exception is a value: a call that can throw returns \<open>js_error + 'a\<close>, \<open>Inl\<close> the error
  thrown. \<open>localStorage.getItem\<close> is a function from the key to the stored text, to \<open>None\<close>
  for \<open>null\<close>, or to an error thrown (a browser that denies access to the storage throws).
  \<open>JSON.parse\<close> is a function from the text to the parsed value, \<open>None\<close> when it throws a
  \<open>SyntaxError\<close>. A callback \<open>onError\<close> returns \<open>None\<close> when it returns, and the error it
  throws otherwise.
\<close>

datatype js_error = Error string

text \<open>
  A serializer, by its \<open>read\<close>. Its \<open>write\<close> takes no part in reading and is left out, as
  are \<open>write\<close>, \<open>remove\<close> and \<open>clear\<close> of the composable.
\<close>

record 'a serializer =
  ser_read :: "string \<Rightarrow> js_error + 'a"

record 'a UseLocalStorageOptions =
  opt_defaultValue :: "'a option"
  opt_serializer :: "'a serializer option"
  opt_onError :: "(js_error \<Rightarrow> js_error option) option"

text \<open>What the closure of one instance holds after the destructuring of \<open>options\<close>.\<close>

record 'a useLocalStorage_state =
  key :: string
  defaultValue :: 'a
  serializer :: "'a serializer"
  onError :: "js_error \<Rightarrow> js_error option"

text \<open>\<^verbatim>\<open>(error) => console.error(error)\<close> logs and returns.\<close>

definition console_error :: "js_error \<Rightarrow> js_error option" where
  "console_error e = None"

text \<open>
  The default serializer:
  \<^verbatim>\<open>read: (value) => { try { return JSON.parse(value) } catch { return defaultValue } }\<close>.
\<close>

definition default_serializer :: "(string \<Rightarrow> 'a option) \<Rightarrow> 'a \<Rightarrow> 'a serializer" where
  "default_serializer JSON_parse dv =
     \<lparr>ser_read = (\<lambda>v. case JSON_parse v of Some parsed \<Rightarrow> Inr parsed | None \<Rightarrow> Inr dv)\<rparr>"

definition useLocalStorage ::
  "(string \<Rightarrow> 'a option) \<Rightarrow> string \<Rightarrow> 'a \<Rightarrow> 'a UseLocalStorageOptions \<Rightarrow>
   'a useLocalStorage_state" where
  "useLocalStorage JSON_parse k initialValue options =
     (let dv = (case opt_defaultValue options of None \<Rightarrow> initialValue | Some d \<Rightarrow> d) in
      \<lparr>key = k,
       defaultValue = dv,
       serializer = (case opt_serializer options of
                       None \<Rightarrow> default_serializer JSON_parse dv
                     | Some s \<Rightarrow> s),
       onError = (case opt_onError options of None \<Rightarrow> console_error | Some f \<Rightarrow> f)\<rparr>)"

text \<open>
  The \<open>catch\<close> block of \<open>read\<close>: \<^verbatim>\<open>onError(error as Error); return defaultValue\<close>.
  The result of \<open>read\<close> is what it returns or throws, with the errors it passed to
  \<open>onError\<close>.
\<close>

definition read_catch :: "'a useLocalStorage_state \<Rightarrow> js_error \<Rightarrow> (js_error + 'a) \<times> js_error list" where
  "read_catch st e =
     (case onError st e of
        Some thrown \<Rightarrow> (Inl thrown, [e])
      | None \<Rightarrow> (Inr (defaultValue st), [e]))"

definition read ::
  "(string \<Rightarrow> js_error + string option) \<Rightarrow> 'a useLocalStorage_state \<Rightarrow>
   (js_error + 'a) \<times> js_error list" where
  "read getItem st =
     (case getItem (key st) of
        Inl e \<Rightarrow> read_catch st e
      | Inr None \<Rightarrow> (Inr (defaultValue st), [])
      | Inr (Some rawValue) \<Rightarrow>
          (case ser_read (serializer st) rawValue of
             Inl e \<Rightarrow> read_catch st e
           | Inr v \<Rightarrow> (Inr v, [])))"

text \<open>
  \<open>JSON.parse\<close> on the texts of the examples below, for \<open>T = number\<close>: the texts \<open>0\<close>, \<open>1\<close>
  and \<open>7\<close> are these numbers, and a text such as \<open>{oops\<close> is rejected. And a storage that
  is denied: every \<open>getItem\<close> throws.
\<close>

definition parse_digit :: "string \<Rightarrow> int option" where
  "parse_digit v =
     (if v = ''0'' then Some 0 else if v = ''1'' then Some 1 else if v = ''7'' then Some 7
      else None)"

definition denied :: "string \<Rightarrow> js_error + string option" where
  "denied k = Inl (Error ''SecurityError'')"

text \<open>\<^verbatim>\<open>onError: (error) => { throw error }\<close>.\<close>

definition rethrow :: "js_error \<Rightarrow> js_error option" where
  "rethrow e = Some e"

section \<open>useGenerator (src/unnamed/part_002)\<close>

text \<open>
  A value of type \<open>T\<close> or \<open>undefined\<close> is an \<open>'a option\<close>, \<open>None\<close> for \<open>undefined\<close>: \<open>initial\<close>
  is optional, \<open>current\<close> starts as \<open>initial\<close>, and \<open>getNext\<close> is called with whatever
  \<open>current\<close> holds. \<open>getNext\<close> may keep variables of its own (the index of
  \<open>useArrayGenerator\<close>): it takes and returns their state \<open>'e\<close>. \<open>truthy\<close> is the truth value
  JavaScript gives to a value of \<open>T\<close> (\<open>0\<close> and the empty string are falsy).
\<close>

record ('a, 'e) useGenerator_state =
  current :: "'a option"
  history :: "'a option list"
  closure :: 'e

record ('a, 'e) UseGeneratorOptions =
  initial :: "'a option"
  getNext :: "'a option \<Rightarrow> 'e \<Rightarrow> 'a option \<times> 'e"

definition useGenerator ::
  "('a \<Rightarrow> bool) \<Rightarrow> ('a, 'e) UseGeneratorOptions \<Rightarrow> 'e \<Rightarrow> ('a, 'e) useGenerator_state" where
  "useGenerator truthy options env =
     \<lparr>current = initial options,
      history = (case initial options of
                   None \<Rightarrow> []
                 | Some v \<Rightarrow> if truthy v then [Some v] else []),
      closure = env\<rparr>"

text \<open>\<open>next\<close> returns \<open>nextValue\<close> and the state it leaves.\<close>

definition "next" ::
  "('a, 'e) UseGeneratorOptions \<Rightarrow> ('a, 'e) useGenerator_state \<Rightarrow>
   'a option \<times> ('a, 'e) useGenerator_state" where
  "next options s =
     (case getNext options (current s) (closure s) of (nextValue, env) \<Rightarrow>
        (nextValue,
         s\<lparr>current := nextValue, history := history s @ [nextValue], closure := env\<rparr>))"

definition reset ::
  "('a, 'e) UseGeneratorOptions \<Rightarrow> 'a option \<Rightarrow> ('a, 'e) useGenerator_state \<Rightarrow>
   ('a, 'e) useGenerator_state" where
  "reset options v s =
     (case v of
        Some x \<Rightarrow> s\<lparr>current := Some x, history := [Some x]\<rparr>
      | None \<Rightarrow>
         (case initial options of
            Some i \<Rightarrow> s\<lparr>current := Some i, history := [Some i]\<rparr>
          | None \<Rightarrow>
             (case getNext options (current s) (closure s) of (nextValue, env) \<Rightarrow>
                s\<lparr>current := nextValue, history := [nextValue], closure := env\<rparr>)))"

definition clear :: "('a, 'e) useGenerator_state \<Rightarrow> ('a, 'e) useGenerator_state" where
  "clear s = s\<lparr>history := []\<rparr>"

text \<open>A call of \<open>next()\<close> or of \<open>reset(value)\<close>, and a sequence of such calls.\<close>

datatype 'a generator_call = Next | Reset "'a option"

fun generator_step ::
  "('a, 'e) UseGeneratorOptions \<Rightarrow> 'a generator_call \<Rightarrow> ('a, 'e) useGenerator_state \<Rightarrow>
   ('a, 'e) useGenerator_state" where
  "generator_step options Next s = snd (next options s)"
| "generator_step options (Reset v) s = reset options v s"

definition generator_run ::
  "('a, 'e) UseGeneratorOptions \<Rightarrow> 'a generator_call list \<Rightarrow> ('a, 'e) useGenerator_state \<Rightarrow>
   ('a, 'e) useGenerator_state" where
  "generator_run options calls s = fold (generator_step options) calls s"

text \<open>
  \<open>useCounterGenerator(start, step)\<close>: \<^verbatim>\<open>getNext: (current) => current + step\<close>. Its
  \<open>initial\<close> is a number, so \<open>current\<close> is never \<open>undefined\<close> and the case \<open>None\<close> of
  \<open>getNext\<close> is never reached.
\<close>

definition useCounterGenerator_options :: "int \<Rightarrow> int \<Rightarrow> (int, unit) UseGeneratorOptions" where
  "useCounterGenerator_options start_value step =
     \<lparr>initial = Some start_value,
      getNext = (\<lambda>c env. (case c of Some n \<Rightarrow> Some (n + step) | None \<Rightarrow> None, env))\<rparr>"

section \<open>Properties of useSort\<close>

lemma mset_ins: "mset (ins cmp x ds) = add_mset x (mset ds)"
  by (induction ds) auto

lemma mset_sort_loop: "mset (sort_loop cmp ds xs) = mset ds + mset xs"
  by (induction xs arbitrary: ds) (auto simp: mset_ins)

lemma mset_array_sort: "mset (array_sort cmp xs) = mset xs"
  by (simp add: array_sort_def mset_sort_loop)

lemma set_ins: "set (ins cmp x ds) = insert x (set ds)"
  by (induction ds) auto

lemma consistent_flip:
  assumes "consistent cmp S" "a \<in> S" "b \<in> S" "\<not> cmp a b < 0"
  shows "cmp b a \<le> 0"
  using assms unfolding consistent_def by (metis not_less)

lemma consistent_trans:
  assumes "consistent cmp S" "a \<in> S" "b \<in> S" "c \<in> S" "\<not> cmp a b < 0" "\<not> cmp b c < 0"
  shows "\<not> cmp a c < 0"
proof -
  have 1: "cmp b a \<le> 0" using assms consistent_flip by metis
  have 2: "cmp c b \<le> 0" using assms consistent_flip by metis
  have "cmp c a \<le> 0" using 1 2 assms(1-4) unfolding consistent_def by blast
  then have "\<not> 0 < cmp c a" by simp
  then show ?thesis using assms(1,2,4) unfolding consistent_def by blast
qed

lemma sorted_ins:
  assumes "consistent cmp S" "x \<in> S" "set ds \<subseteq> S"
    and "sorted_wrt (\<lambda>l e. \<not> cmp l e < 0) ds"
  shows "sorted_wrt (\<lambda>l e. \<not> cmp l e < 0) (ins cmp x ds)"
  using assms(3,4)
proof (induction ds)
  case Nil
  then show ?case by simp
next
  case (Cons y ds)
  show ?case
  proof (cases "cmp x y < 0")
    case True
    have "0 < cmp y x" using True assms(1,2) Cons.prems(1) unfolding consistent_def by auto
    then have "\<not> cmp y x < 0" by simp
    then show ?thesis using True Cons by (auto simp: set_ins)
  next
    case False
    have "\<not> cmp x z < 0" if "z \<in> set ds" for z
      using consistent_trans[OF assms(1), of x y z] assms(2) Cons.prems that False by auto
    then show ?thesis using False Cons.prems by auto
  qed
qed

lemma ordered_sort_loop:
  assumes "consistent cmp S"
  shows "set ds \<subseteq> S \<Longrightarrow> set xs \<subseteq> S \<Longrightarrow> sorted_wrt (\<lambda>l e. \<not> cmp l e < 0) ds
    \<Longrightarrow> ordered_by cmp (sort_loop cmp ds xs)"
proof (induction xs arbitrary: ds)
  case Nil
  then show ?case by (simp add: ordered_by_def sorted_wrt_rev)
next
  case (Cons x xs)
  have "sorted_wrt (\<lambda>l e. \<not> cmp l e < 0) (ins cmp x ds)"
    using sorted_ins[OF assms, of x ds] Cons.prems by simp
  moreover have "set (ins cmp x ds) \<subseteq> S" using Cons.prems by (simp add: set_ins)
  ultimately show ?case using Cons.IH[of "ins cmp x ds"] Cons.prems by simp
qed

lemma ordered_array_sort: "consistent cmp (set xs) \<Longrightarrow> ordered_by cmp (array_sort cmp xs)"
  unfolding array_sort_def using ordered_sort_loop[of cmp "set xs" "[]" xs] by simp

lemma ins_front: "(\<forall>y\<in>set ds. \<not> cmp x y < 0) \<Longrightarrow> ins cmp x ds = x # ds"
  by (cases ds) auto

lemma sort_loop_ordered:
  "ordered_by cmp (rev ds @ xs) \<Longrightarrow> sort_loop cmp ds xs = rev ds @ xs"
proof (induction xs arbitrary: ds)
  case Nil
  then show ?case by simp
next
  case (Cons x xs)
  have "ins cmp x ds = x # ds"
    using Cons.prems by (intro ins_front) (auto simp: ordered_by_def sorted_wrt_append)
  moreover have "ordered_by cmp (rev (x # ds) @ xs)" using Cons.prems by simp
  ultimately show ?case using Cons.IH[of "x # ds"] by simp
qed

lemma array_sort_ordered: "ordered_by cmp xs \<Longrightarrow> array_sort cmp xs = xs"
  unfolding array_sort_def using sort_loop_ordered[of cmp "[]" xs] by simp

lemma set_array_sort: "set (array_sort cmp xs) = set xs"
  using mset_array_sort[of cmp xs] by (metis set_mset_mset)

lemma array_sort_idem:
  "consistent cmp (set xs) \<Longrightarrow> array_sort cmp (array_sort cmp xs) = array_sort cmp xs"
  by (simp add: array_sort_ordered ordered_array_sort)

lemma items_sort_step: "items (sort_step a st) = items st"
  by (cases a) (simp_all add: clearSort_def addSortOption_def removeSortOption_def)

lemma compareFn_sort_step: "compareFn (sort_step a st) = compareFn st"
  by (cases a) (simp_all add: clearSort_def addSortOption_def removeSortOption_def)

lemma items_sort_run: "items (sort_run acts st) = items st"
  unfolding sort_run_def by (induction acts arbitrary: st) (simp_all add: items_sort_step)

lemma compareFn_sort_run: "compareFn (sort_run acts st) = compareFn st"
  unfolding sort_run_def by (induction acts arbitrary: st) (simp_all add: compareFn_sort_step)

lemma sortedItems_sort_run: "sortedItems (sort_run acts st) = sortedItems st"
  by (simp add: sortedItems_def items_sort_run compareFn_sort_run split: option.split)

lemma sortedItems_useSort:
  "sortedItems (useSort xs cf) = (case cf of None \<Rightarrow> xs | Some f \<Rightarrow> array_sort f xs)"
  by (cases cf) (simp_all add: sortedItems_def useSort_def)

text \<open>
  C5. For every collection and every comparator (also none), the output of the sort stage
  is a permutation of the input, and has the length of the input.
\<close>

theorem sortedItems_permutation:
  "mset (sortedItems (sort_run acts (useSort xs cf))) = mset xs \<and>
   length (sortedItems (sort_run acts (useSort xs cf))) = length xs"
proof -
  have m: "mset (sortedItems (sort_run acts (useSort xs cf))) = mset xs"
    by (cases cf) (simp_all add: sortedItems_sort_run sortedItems_useSort mset_array_sort)
  from m have "size (mset (sortedItems (sort_run acts (useSort xs cf)))) = size (mset xs)"
    by simp
  then have "length (sortedItems (sort_run acts (useSort xs cf))) = length xs"
    by simp
  with m show ?thesis by simp
qed

text \<open>
  C1 (as stated). With a sort key active and no comparator, \<open>sortedItems\<close> would be the
  collection in ascending order of the key's field. It is not: the three users with the key
  \<open>age\<close> active and \<open>sortOrder = 'asc'\<close> come out in their original order, ages 30, 25, 35.
\<close>

theorem sortedItems_no_comparator_counterexample:
  "sortBy (sort_run [SetSortBy (Some ''age''), SetSortOrder Asc] (useSort users None)) = Some ''age'' \<and>
   compareFn (sort_run [SetSortBy (Some ''age''), SetSortOrder Asc] (useSort users None)) = None \<and>
   map age (sortedItems (sort_run [SetSortBy (Some ''age''), SetSortOrder Asc] (useSort users None)))
     = [30, 25, 35] \<and>
   \<not> sorted (map age (sortedItems
       (sort_run [SetSortBy (Some ''age''), SetSortOrder Asc] (useSort users None))))"
  by (simp add: sort_run_def useSort_def sortedItems_def users_def alice_def bob_def charlie_def)

text \<open>
  C1 (amended). When no comparator was supplied to \<open>useSort\<close>, \<open>sortedItems\<close> is the
  collection in its original order, whatever sort key is active and whatever the sort order.
\<close>

theorem sortedItems_no_comparator:
  "sortedItems (sort_run acts (useSort xs None)) = xs"
  by (simp add: sortedItems_sort_run sortedItems_useSort)

text \<open>
  C2. \<open>sortedItems\<close> depends on \<open>items\<close> and \<open>compareFn\<close> only: two runs on the same
  arguments that differ in what was assigned to \<open>sortBy\<close>, \<open>sortOrder\<close> and \<open>currentSort\<close>
  and in the calls of \<open>clearSort\<close>, \<open>addSortOption\<close> and \<open>removeSortOption\<close> give equal arrays.
\<close>

theorem sortedItems_independent_of_sort_state:
  fixes acts1 acts2 :: "('a, 'k) sort_action list"
  shows "sortedItems (sort_run acts1 (useSort xs cf)) = sortedItems (sort_run acts2 (useSort xs cf))"
  by (simp add: sortedItems_sort_run)

text \<open>
  C3 (the code at a failing input). No sort key is active, after \<open>clearSort\<close> as at the
  start, and the comparator of the test "should sort by number field" was supplied: the
  users come out ordered by age, not in the original order Alice, Bob, Charlie.
\<close>

theorem sortedItems_no_key_sorts:
  "sortBy (clearSort (useSort users (Some by_age))) = (None :: string option) \<and>
   sortedItems (clearSort (useSort users (Some by_age)) :: (User, string) useSort_state)
     = [bob, alice, charlie] \<and>
   sortedItems (useSort users (Some by_age) :: (User, string) useSort_state)
     = [bob, alice, charlie] \<and>
   users = [alice, bob, charlie] \<and> bob \<noteq> alice"
  by (simp add: clearSort_def useSort_def sortedItems_def array_sort_def users_def by_age_def
      alice_def bob_def charlie_def)

lemma arrays_spread: "arrays (fst (spread h r)) = (arrays h)(nextRef h := arrays h r)"
  by (simp add: spread_def)

lemma sortedItems_store_ref: "snd (sortedItems_store h its cf) = nextRef h"
  by (cases cf) (simp_all add: sortedItems_store_def spread_def sort_in_place_def)

lemma sortedItems_store_arrays:
  "arrays (fst (sortedItems_store h its cf)) =
     (arrays h)(nextRef h :=
        (case cf of None \<Rightarrow> arrays h its | Some f \<Rightarrow> array_sort f (arrays h its)))"
  by (cases cf) (simp_all add: sortedItems_store_def spread_def sort_in_place_def)

lemma sortedItems_store_contents:
  "arrays (fst (sortedItems_store h its cf)) (snd (sortedItems_store h its cf)) =
     sortedItems (useSort (arrays h its) cf :: ('a, unit) useSort_state)"
  by (simp add: sortedItems_store_arrays sortedItems_store_ref sortedItems_useSort)

text \<open>
  C4. Evaluating \<open>sortedItems\<close> leaves the input array as it was, for every comparator and for
  none: the result is a new array, and every array that existed before, the input among
  them, has the same elements at the same positions afterwards.
\<close>

theorem sortedItems_store_input_unchanged:
  assumes "its < nextRef h"
  shows "arrays (fst (sortedItems_store h its cf)) its = arrays h its \<and>
         length (arrays (fst (sortedItems_store h its cf)) its) = length (arrays h its) \<and>
         snd (sortedItems_store h its cf) \<noteq> its \<and>
         (\<forall>r. r < nextRef h \<longrightarrow> arrays (fst (sortedItems_store h its cf)) r = arrays h r)"
  using assms by (simp add: sortedItems_store_arrays sortedItems_store_ref)

theorem sortedItems_store_input_unchanged_witness:
  "(0::nat) < nextRef \<lparr>arrays = (\<lambda>r. if r = 0 then [3, 1, 2 :: int] else []), nextRef = 1\<rparr> \<and>
   arrays (fst (sortedItems_store \<lparr>arrays = (\<lambda>r. if r = 0 then [3, 1, 2 :: int] else []), nextRef = 1\<rparr>
       0 (Some (\<lambda>a b. a - b)))) 0 = [3, 1, 2] \<and>
   arrays (fst (sortedItems_store \<lparr>arrays = (\<lambda>r. if r = 0 then [3, 1, 2 :: int] else []), nextRef = 1\<rparr>
       0 (Some (\<lambda>a b. a - b)))) 1 = [1, 2, 3] \<and>
   snd (sortedItems_store \<lparr>arrays = (\<lambda>r. if r = 0 then [3, 1, 2 :: int] else []), nextRef = 1\<rparr>
       0 (Some (\<lambda>a b. a - b))) = 1"
  using sortedItems_store_input_unchanged
    [of 0 "\<lparr>arrays = (\<lambda>r. if r = 0 then [3, 1, 2 :: int] else []), nextRef = 1\<rparr>"
        "Some (\<lambda>a b. a - b)"]
  by (simp add: sortedItems_store_arrays sortedItems_store_ref sortedItems_useSort array_sort_def)

text \<open>
  C6 (as stated). Sorting the output again with the same comparator would give the output
  back for every comparator. It does not for \<open>() => -1\<close>: the array 1, 2 comes out as 2, 1,
  and sorting that gives 1, 2 again.
\<close>

theorem sortedItems_idempotent_counterexample:
  "sortedItems (useSort [1, 2] (Some always_before) :: (int, string) useSort_state) = [2, 1] \<and>
   sortedItems (useSort (sortedItems (useSort [1, 2] (Some always_before) :: (int, string) useSort_state))
      (Some always_before) :: (int, string) useSort_state) = [1, 2] \<and>
   sortedItems (useSort (sortedItems (useSort [1, 2] (Some always_before) :: (int, string) useSort_state))
      (Some always_before) :: (int, string) useSort_state)
     \<noteq> sortedItems (useSort [1, 2] (Some always_before) :: (int, string) useSort_state)"
  by (simp add: sortedItems_useSort array_sort_def always_before_def)

text \<open>
  C6 (amended). For every collection and every comparator that is consistent on the
  elements of the collection (and when there is no comparator), sorting is idempotent:
  the sort stage applied to its own output, with the same key and direction, gives an
  array equal to that output, element by element.
\<close>

theorem sortedItems_idempotent:
  assumes "\<forall>f. cf = Some f \<longrightarrow> consistent f (set xs)"
  shows "sortedItems (sort_run acts (useSort (sortedItems (sort_run acts (useSort xs cf))) cf))
       = sortedItems (sort_run acts (useSort xs cf))"
  using assms by (cases cf) (simp_all add: sortedItems_sort_run sortedItems_useSort array_sort_idem)

lemma consistent_by_age: "consistent by_age (set users)"
  by (simp add: consistent_def users_def by_age_def alice_def bob_def charlie_def)

theorem sortedItems_idempotent_witness:
  "consistent by_age (set users) \<and>
   sortedItems (useSort users (Some by_age) :: (User, string) useSort_state) = [bob, alice, charlie] \<and>
   sortedItems (sort_run [SetSortBy (Some ''age'')]
      (useSort (sortedItems (sort_run [SetSortBy (Some ''age'')] (useSort users (Some by_age)))) (Some by_age)))
     = sortedItems (sort_run [SetSortBy (Some ''age'')] (useSort users (Some by_age)))"
  using sortedItems_idempotent [of "Some by_age" users "[SetSortBy (Some ''age'')]"]
    consistent_by_age
  by (simp add: sortedItems_useSort array_sort_def users_def by_age_def alice_def bob_def charlie_def)

section \<open>Properties of the paginate stage\<close>

text \<open>
  C7. For every filtered result set, \<open>setPage\<close> clamps an out-of-range page into
  \<open>[1, totalPages]\<close>: \<open>setPage(n)\<close> with \<open>n < 1\<close> gives \<open>currentPage = 1\<close>, and with
  \<open>n > totalPages\<close> it gives \<open>currentPage = totalPages\<close>; in every case the current page
  is in the range afterwards.
\<close>

theorem setPage_clamps:
  assumes "1 \<le> pageSize st"
  shows "(n < 1 \<longrightarrow> currentPage (setPage n st) = 1) \<and>
         (totalPages st < n \<longrightarrow> currentPage (setPage n st) = totalPages st) \<and>
         1 \<le> currentPage (setPage n st) \<and> currentPage (setPage n st) \<le> totalPages st \<and>
         totalPages (setPage n st) = totalPages st"
proof -
  have tp: "1 \<le> totalPages st" by (simp add: totalPages_def)
  have same: "totalPages (setPage n st) = totalPages st"
    by (simp add: totalPages_def totalItems_def setPage_def)
  show ?thesis using tp same by (auto simp: setPage_def)
qed

theorem setPage_clamps_witness:
  "1 \<le> pageSize \<lparr>filteredData = [1, 2, 3, 4, 5, 6, 7, 8, 9, 10, 11, 12 :: nat], currentPage = 2, pageSize = 5\<rparr> \<and>
   totalPages \<lparr>filteredData = [1, 2, 3, 4, 5, 6, 7, 8, 9, 10, 11, 12 :: nat], currentPage = 2, pageSize = 5\<rparr> = 3 \<and>
   currentPage (setPage 0
     \<lparr>filteredData = [1, 2, 3, 4, 5, 6, 7, 8, 9, 10, 11, 12 :: nat], currentPage = 2, pageSize = 5\<rparr>) = 1 \<and>
   currentPage (setPage 999
     \<lparr>filteredData = [1, 2, 3, 4, 5, 6, 7, 8, 9, 10, 11, 12 :: nat], currentPage = 2, pageSize = 5\<rparr>) = 3"
proof -
  let ?st = "\<lparr>filteredData = [1, 2, 3, 4, 5, 6, 7, 8, 9, 10, 11, 12 :: nat], currentPage = 2, pageSize = 5\<rparr>"
  have tp: "totalPages ?st = 3" by (simp add: totalPages_def totalItems_def)
  show ?thesis
    using setPage_clamps [of ?st 0] setPage_clamps [of ?st 999] tp by simp
qed

section \<open>Properties of the event listeners\<close>

lemma listeners_clearTimeout: "listeners (clearTimeout tid b) = listeners b"
  by (cases tid) (simp_all add: clearTimeout_def)

lemma listeners_setTimeout: "listeners (snd (setTimeout b)) = listeners b"
  by (simp add: setTimeout_def)

lemma listeners_remove_add:
  "listeners (removeEventListener t ty cb (addEventListener t ty cb p b)) =
     filter (\<lambda>l. \<not> matches t ty cb l) (listeners b)"
  by (simp add: removeEventListener_def addEventListener_def matches_def)

lemma filter_fresh:
  "fresh cb b \<Longrightarrow> filter (\<lambda>l. \<not> matches t ty cb l) (listeners b) = listeners b"
  by (auto simp: fresh_def matches_def list_ex_iff filter_id_conv)

lemma subscribed_removed:
  "listeners b' = filter (\<lambda>l. \<not> matches t ty cb l) ls \<Longrightarrow> subscribed t [ty] cb b' = []"
  by (simp add: subscribed_def filter_empty_conv)

lemma subscribed_add:
  "subscribed t [ty] cb (addEventListener t ty cb p b) \<noteq> []"
  by (auto simp: subscribed_def addEventListener_def filter_empty_conv list_ex_iff matches_def)

subsection \<open>useScroll\<close>

lemma updateScrollState_frame:
  "target (fst (updateScrollState sb)) = target (fst sb) \<and>
   updateScrollState_ref (fst (updateScrollState sb)) = updateScrollState_ref (fst sb) \<and>
   listeners (snd (updateScrollState sb)) = listeners (snd sb)"
  by (cases sb)
     (simp add: updateScrollState_def setTimeout_def listeners_clearTimeout split: prod.split)

lemma updateScrollState_funpow_frame:
  "target (fst ((updateScrollState ^^ n) sb)) = target (fst sb) \<and>
   updateScrollState_ref (fst ((updateScrollState ^^ n) sb)) = updateScrollState_ref (fst sb) \<and>
   listeners (snd ((updateScrollState ^^ n) sb)) = listeners (snd sb)"
  by (induction n) (simp_all add: updateScrollState_frame)

lemma useScroll_mounted_frame:
  "target (fst (useScroll_mounted (s, b))) = target s \<and>
   updateScrollState_ref (fst (useScroll_mounted (s, b))) = updateScrollState_ref s \<and>
   listeners (snd (useScroll_mounted (s, b))) =
     listeners (addEventListener (target s) ''scroll'' (updateScrollState_ref s) True b)"
proof -
  obtain s1 b1 where u: "updateScrollState (s, b) = (s1, b1)" by (cases "updateScrollState (s, b)")
  have f: "target s1 = target s" "updateScrollState_ref s1 = updateScrollState_ref s"
    "listeners b1 = listeners b"
    using updateScrollState_frame[of "(s, b)"] u by simp_all
  show ?thesis using u f
    by (simp add: useScroll_mounted_def addEventListener_def)
qed

lemma useScroll_listeners:
  "listeners (snd (useScroll_unmounted ((updateScrollState ^^ n) (useScroll_mounted (s, b))))) =
     filter (\<lambda>l. \<not> matches (target s) ''scroll'' (updateScrollState_ref s) l) (listeners b)"
proof -
  obtain s2 b2 where r: "(updateScrollState ^^ n) (useScroll_mounted (s, b)) = (s2, b2)"
    by (cases "(updateScrollState ^^ n) (useScroll_mounted (s, b))")
  have f: "target s2 = target s" "updateScrollState_ref s2 = updateScrollState_ref s"
    "listeners b2 = listeners (addEventListener (target s) ''scroll'' (updateScrollState_ref s) True b)"
    using updateScrollState_funpow_frame[of n "useScroll_mounted (s, b)"] r
      useScroll_mounted_frame[of s b] by simp_all
  have "listeners (snd (useScroll_unmounted (s2, b2))) =
      filter (\<lambda>l. \<not> matches (target s) ''scroll'' (updateScrollState_ref s) l) (listeners b2)"
    by (simp add: useScroll_unmounted_def listeners_clearTimeout removeEventListener_def f)
  also have "\<dots> = filter (\<lambda>l. \<not> matches (target s) ''scroll'' (updateScrollState_ref s) l) (listeners b)"
    using listeners_remove_add[of "target s" "''scroll''" "updateScrollState_ref s" True b]
    by (simp add: f removeEventListener_def)
  finally show ?thesis using r by simp
qed

subsection \<open>useWindowSize\<close>

lemma updateSize_frame:
  "updateSize_ref (fst (updateSize sb)) = updateSize_ref (fst sb) \<and> snd (updateSize sb) = snd sb"
  by (cases sb) (simp add: updateSize_def)

lemma updateSize_funpow_frame:
  "updateSize_ref (fst ((updateSize ^^ n) sb)) = updateSize_ref (fst sb) \<and>
   snd ((updateSize ^^ n) sb) = snd sb"
  by (induction n) (simp_all add: updateSize_frame)

lemma useWindowSize_mounted_frame:
  "updateSize_ref (fst (useWindowSize_mounted (s, b))) = updateSize_ref s \<and>
   snd (useWindowSize_mounted (s, b)) = addEventListener Window ''resize'' (updateSize_ref s) True b"
  by (simp add: useWindowSize_mounted_def updateSize_def)

lemma useWindowSize_listeners:
  "listeners (snd (useWindowSize_unmounted ((updateSize ^^ n) (useWindowSize_mounted (s, b))))) =
     filter (\<lambda>l. \<not> matches Window ''resize'' (updateSize_ref s) l) (listeners b)"
proof -
  obtain s2 b2 where r: "(updateSize ^^ n) (useWindowSize_mounted (s, b)) = (s2, b2)"
    by (cases "(updateSize ^^ n) (useWindowSize_mounted (s, b))")
  have f: "updateSize_ref s2 = updateSize_ref s"
    "b2 = addEventListener Window ''resize'' (updateSize_ref s) True b"
    using updateSize_funpow_frame[of n "useWindowSize_mounted (s, b)"] r
      useWindowSize_mounted_frame[of s b] by simp_all
  show ?thesis
    using listeners_remove_add[of Window "''resize''" "updateSize_ref s" True b]
    by (simp add: r useWindowSize_unmounted_def f)
qed

subsection \<open>useIdle\<close>

lemma handleActivity_frame:
  "events (fst (handleActivity sb)) = events (fst sb) \<and>
   handleActivity_ref (fst (handleActivity sb)) = handleActivity_ref (fst sb) \<and>
   listeners (snd (handleActivity sb)) = listeners (snd sb)"
  by (cases sb)
     (simp add: handleActivity_def setTimeout_def listeners_clearTimeout split: prod.split)

lemma handleActivity_funpow_frame:
  "events (fst ((handleActivity ^^ n) sb)) = events (fst sb) \<and>
   handleActivity_ref (fst ((handleActivity ^^ n) sb)) = handleActivity_ref (fst sb) \<and>
   listeners (snd ((handleActivity ^^ n) sb)) = listeners (snd sb)"
  by (induction n) (simp_all add: handleActivity_frame)

lemma stop_frame:
  "events (fst (stop sb)) = events (fst sb) \<and>
   handleActivity_ref (fst (stop sb)) = handleActivity_ref (fst sb) \<and>
   listeners (snd (stop sb)) = listeners (snd sb)"
  by (cases sb) (simp add: stop_def listeners_clearTimeout)

lemma listeners_fold_remove:
  "listeners (fold (\<lambda>event. removeEventListener t event cb) evs b) =
     filter (\<lambda>l. \<not> list_ex (\<lambda>ty. matches t ty cb l) evs) (listeners b)"
proof (induction evs arbitrary: b)
  case Nil
  then show ?case by simp
next
  case (Cons ev evs)
  have "filter (\<lambda>l. \<not> list_ex (\<lambda>ty. matches t ty cb l) evs)
          (filter (\<lambda>l. \<not> matches t ev cb l) (listeners b)) =
        filter (\<lambda>l. \<not> list_ex (\<lambda>ty. matches t ty cb l) (ev # evs)) (listeners b)"
    by (simp add: conj_commute)
  then show ?case using Cons.IH[of "removeEventListener t ev cb b"]
    by (simp add: removeEventListener_def)
qed

lemma listeners_fold_add:
  "\<exists>ns. listeners (fold (\<lambda>event. addEventListener t event cb p) evs b) = listeners b @ ns \<and>
        (\<forall>l\<in>set ns. list_ex (\<lambda>ty. matches t ty cb l) evs)"
proof (induction evs arbitrary: b)
  case Nil
  then show ?case by simp
next
  case (Cons ev evs)
  obtain ns where ns: "listeners (fold (\<lambda>event. addEventListener t event cb p) evs
        (addEventListener t ev cb p b)) = listeners (addEventListener t ev cb p b) @ ns"
      "\<forall>l\<in>set ns. list_ex (\<lambda>ty. matches t ty cb l) evs"
    using Cons.IH[of "addEventListener t ev cb p b"] by blast
  obtain ms where ms: "listeners (addEventListener t ev cb p b) = listeners b @ ms"
      "\<forall>l\<in>set ms. matches t ev cb l"
    by (cases "list_ex (matches t ev cb) (listeners b)")
       (simp_all add: addEventListener_def matches_def)
  have "listeners (fold (\<lambda>event. addEventListener t event cb p) (ev # evs) b) =
      listeners b @ (ms @ ns)" using ns(1) ms(1) by simp
  moreover have "\<forall>l\<in>set (ms @ ns). list_ex (\<lambda>ty. matches t ty cb l) (ev # evs)"
    using ns(2) ms(2) by auto
  ultimately show ?case by blast
qed

lemma subscribed_fold_add:
  "list_all (\<lambda>ev. subscribed t [ev] cb (fold (\<lambda>event. addEventListener t event cb p) evs b) \<noteq> []) evs"
proof -
  have keep: "subscribed t [ev] cb b \<noteq> [] \<Longrightarrow> subscribed t [ev] cb (addEventListener t e cb p b) \<noteq> []"
    for ev e b
    by (auto simp: subscribed_def addEventListener_def filter_empty_conv)
  have keeps: "subscribed t [ev] cb b \<noteq> [] \<Longrightarrow>
      subscribed t [ev] cb (fold (\<lambda>event. addEventListener t event cb p) es b) \<noteq> []" for ev es b
    by (induction es arbitrary: b) (simp_all add: keep)
  show ?thesis
  proof (induction evs arbitrary: b)
    case Nil
    then show ?case by simp
  next
    case (Cons e es)
    have "subscribed t [e] cb (fold (\<lambda>event. addEventListener t event cb p) es
        (addEventListener t e cb p b)) \<noteq> []"
      by (rule keeps) (rule subscribed_add)
    then show ?case using Cons.IH[of "addEventListener t e cb p b"] by simp
  qed
qed

lemma useIdle_mounted_frame:
  "events (fst (useIdle_mounted (s, b))) = events s \<and>
   handleActivity_ref (fst (useIdle_mounted (s, b))) = handleActivity_ref s \<and>
   (\<exists>ns. listeners (snd (useIdle_mounted (s, b))) = listeners b @ ns \<and>
      (\<forall>l\<in>set ns. list_ex (\<lambda>ty. matches Document ty (handleActivity_ref s) l) (events s)))"
proof -
  define sb1 where "sb1 = (if \<not> initialState s then start (s, b) else (s, b))"
  obtain s1 b1 where sb1: "sb1 = (s1, b1)" by (cases sb1)
  have f: "events s1 = events s" "handleActivity_ref s1 = handleActivity_ref s"
    "listeners b1 = listeners b"
    using handleActivity_frame[of "(s, b)"] sb1 unfolding sb1_def start_def
    by (auto split: if_splits)
  have m: "useIdle_mounted (s, b) =
      (s1, fold (\<lambda>event. addEventListener Document event (handleActivity_ref s) True) (events s) b1)"
    using sb1 f unfolding sb1_def by (simp add: useIdle_mounted_def)
  show ?thesis
    using listeners_fold_add[of Document "handleActivity_ref s" True "events s" b1] f
    by (simp add: m)
qed

lemma useIdle_listeners:
  "listeners (snd (useIdle_unmounted ((handleActivity ^^ n) (useIdle_mounted (s, b))))) =
     filter (\<lambda>l. \<not> list_ex (\<lambda>ty. matches Document ty (handleActivity_ref s) l) (events s))
       (listeners b)"
proof -
  obtain s2 b2 where r: "(handleActivity ^^ n) (useIdle_mounted (s, b)) = (s2, b2)"
    by (cases "(handleActivity ^^ n) (useIdle_mounted (s, b))")
  obtain ns where f: "events s2 = events s" "handleActivity_ref s2 = handleActivity_ref s"
    "listeners b2 = listeners b @ ns"
    "\<forall>l\<in>set ns. list_ex (\<lambda>ty. matches Document ty (handleActivity_ref s) l) (events s)"
    using handleActivity_funpow_frame[of n "useIdle_mounted (s, b)"] r
      useIdle_mounted_frame[of s b] by auto
  obtain s3 b3 where st: "stop (s2, b2) = (s3, b3)" by (cases "stop (s2, b2)")
  have g: "events s3 = events s" "handleActivity_ref s3 = handleActivity_ref s"
    "listeners b3 = listeners b @ ns"
    using stop_frame[of "(s2, b2)"] st f by simp_all
  have "filter (\<lambda>l. \<not> list_ex (\<lambda>ty. matches Document ty (handleActivity_ref s) l) (events s)) ns = []"
    using f(4) by (simp add: filter_empty_conv)
  then show ?thesis
    by (simp add: r useIdle_unmounted_def st g listeners_fold_remove)
qed

lemma filter_fresh_events:
  "fresh cb b \<Longrightarrow>
     filter (\<lambda>l. \<not> list_ex (\<lambda>ty. matches t ty cb l) evs) (listeners b) = listeners b"
  by (auto simp: fresh_def matches_def list_ex_iff filter_id_conv)

lemma subscribed_filtered:
  "listeners b' = filter (\<lambda>l. \<not> list_ex (\<lambda>ty. matches t ty cb l) evs) ls \<Longrightarrow>
     subscribed t evs cb b' = []"
  by (simp add: subscribed_def filter_empty_conv)

text \<open>
  C8. Each of the three composables registers on mount the closure that it removes on
  unmount (\<open>updateScrollState\<close> on the target's \<open>scroll\<close>, \<open>updateSize\<close> on the window's
  \<open>resize\<close>, \<open>handleActivity\<close> on each of the document's activity events): after the mount
  the closure is subscribed, and after the unmount, with any number of runs of the handler in
  between, it is subscribed to none of its events; when the closure was the callback of no
  listener before the mount, the listeners are exactly those from before. (The array
  \<open>events\<close> of \<open>useIdle\<close> is the same at the mount and at the unmount.)
\<close>

theorem listeners_released_on_unmount:
  "subscribed (target s) [''scroll''] (updateScrollState_ref s) (snd (useScroll_mounted (s, b))) \<noteq> [] \<and>
   subscribed (target s) [''scroll''] (updateScrollState_ref s)
     (snd (useScroll_unmounted ((updateScrollState ^^ n) (useScroll_mounted (s, b))))) = [] \<and>
   (fresh (updateScrollState_ref s) b \<longrightarrow>
     listeners (snd (useScroll_unmounted ((updateScrollState ^^ n) (useScroll_mounted (s, b)))))
       = listeners b) \<and>
   subscribed Window [''resize''] (updateSize_ref w) (snd (useWindowSize_mounted (w, b))) \<noteq> [] \<and>
   subscribed Window [''resize''] (updateSize_ref w)
     (snd (useWindowSize_unmounted ((updateSize ^^ n) (useWindowSize_mounted (w, b))))) = [] \<and>
   (fresh (updateSize_ref w) b \<longrightarrow>
     listeners (snd (useWindowSize_unmounted ((updateSize ^^ n) (useWindowSize_mounted (w, b)))))
       = listeners b) \<and>
   list_all (\<lambda>ev. subscribed Document [ev] (handleActivity_ref i) (snd (useIdle_mounted (i, b))) \<noteq> [])
     (events i) \<and>
   subscribed Document (events i) (handleActivity_ref i)
     (snd (useIdle_unmounted ((handleActivity ^^ n) (useIdle_mounted (i, b))))) = [] \<and>
   (fresh (handleActivity_ref i) b \<longrightarrow>
     listeners (snd (useIdle_unmounted ((handleActivity ^^ n) (useIdle_mounted (i, b)))))
       = listeners b)"
proof -
  have s1: "subscribed (target s) [''scroll''] (updateScrollState_ref s)
      (snd (useScroll_mounted (s, b))) \<noteq> []"
  proof -
    have "subscribed (target s) [''scroll''] (updateScrollState_ref s) (snd (useScroll_mounted (s, b)))
      = subscribed (target s) [''scroll''] (updateScrollState_ref s)
          (addEventListener (target s) ''scroll'' (updateScrollState_ref s) True b)"
      using useScroll_mounted_frame[of s b] by (simp add: subscribed_def)
    then show ?thesis by (simp add: subscribed_add)
  qed
  have s2: "subscribed (target s) [''scroll''] (updateScrollState_ref s)
     (snd (useScroll_unmounted ((updateScrollState ^^ n) (useScroll_mounted (s, b))))) = []"
    by (rule subscribed_removed) (rule useScroll_listeners)
  have s3: "fresh (updateScrollState_ref s) b \<longrightarrow>
     listeners (snd (useScroll_unmounted ((updateScrollState ^^ n) (useScroll_mounted (s, b)))))
       = listeners b"
    by (simp add: useScroll_listeners filter_fresh)
  have w1: "subscribed Window [''resize''] (updateSize_ref w) (snd (useWindowSize_mounted (w, b))) \<noteq> []"
    using useWindowSize_mounted_frame[of w b] by (simp add: subscribed_add)
  have w2: "subscribed Window [''resize''] (updateSize_ref w)
     (snd (useWindowSize_unmounted ((updateSize ^^ n) (useWindowSize_mounted (w, b))))) = []"
    by (rule subscribed_removed) (rule useWindowSize_listeners)
  have w3: "fresh (updateSize_ref w) b \<longrightarrow>
     listeners (snd (useWindowSize_unmounted ((updateSize ^^ n) (useWindowSize_mounted (w, b)))))
       = listeners b"
    by (simp add: useWindowSize_listeners filter_fresh)
  have i1: "list_all (\<lambda>ev. subscribed Document [ev] (handleActivity_ref i)
      (snd (useIdle_mounted (i, b))) \<noteq> []) (events i)"
  proof -
    obtain s1 b1 where sb1: "(if \<not> initialState i then start (i, b) else (i, b)) = (s1, b1)"
      by (cases "if \<not> initialState i then start (i, b) else (i, b)")
    have f: "events s1 = events i" "handleActivity_ref s1 = handleActivity_ref i"
      using handleActivity_frame[of "(i, b)"] sb1 unfolding start_def
      by (auto split: if_splits)
    have "snd (useIdle_mounted (i, b)) =
        fold (\<lambda>event. addEventListener Document event (handleActivity_ref i) True) (events i) b1"
      using sb1 f by (simp add: useIdle_mounted_def)
    then show ?thesis
      using subscribed_fold_add[of Document "handleActivity_ref i" True "events i" b1] by simp
  qed
  have i2: "subscribed Document (events i) (handleActivity_ref i)
     (snd (useIdle_unmounted ((handleActivity ^^ n) (useIdle_mounted (i, b))))) = []"
    by (rule subscribed_filtered) (rule useIdle_listeners)
  have i3: "fresh (handleActivity_ref i) b \<longrightarrow>
     listeners (snd (useIdle_unmounted ((handleActivity ^^ n) (useIdle_mounted (i, b)))))
       = listeners b"
    by (simp add: useIdle_listeners filter_fresh_events)
  from s1 s2 s3 w1 w2 w3 i1 i2 i3 show ?thesis by blast
qed

theorem listeners_released_on_unmount_witness:
  "fresh 7 browser0 \<and>
   length (listeners (snd (useScroll_mounted (useScroll None 7, browser0)))) = 1 \<and>
   listeners (snd (useScroll_unmounted ((updateScrollState ^^ 2)
      (useScroll_mounted (useScroll None 7, browser0))))) = [] \<and>
   length (listeners (snd (useWindowSize_mounted (useWindowSize None None 7, browser0)))) = 1 \<and>
   listeners (snd (useWindowSize_unmounted ((updateSize ^^ 2)
      (useWindowSize_mounted (useWindowSize None None 7, browser0))))) = [] \<and>
   length (listeners (snd (useIdle_mounted (useIdle None None None 7 browser0, browser0)))) = 6 \<and>
   listeners (snd (useIdle_unmounted ((handleActivity ^^ 2)
      (useIdle_mounted (useIdle None None None 7 browser0, browser0))))) = []"
proof -
  have f: "fresh 7 browser0" by (simp add: fresh_def browser0_def)
  have l: "listeners browser0 = []" by (simp add: browser0_def)
  note t = listeners_released_on_unmount
    [of "useScroll None 7" browser0 2 "useWindowSize None None 7" "useIdle None None None 7 browser0"]
  have a: "length (listeners (snd (useScroll_mounted (useScroll None 7, browser0)))) = 1"
    by (simp add: useScroll_mounted_def updateScrollState_def getScrollPosition_def useScroll_def
        setTimeout_def clearTimeout_def addEventListener_def browser0_def)
  have b: "length (listeners (snd (useWindowSize_mounted (useWindowSize None None 7, browser0)))) = 1"
    by (simp add: useWindowSize_mounted_def updateSize_def useWindowSize_def
        addEventListener_def browser0_def)
  have c: "length (listeners (snd (useIdle_mounted (useIdle None None None 7 browser0, browser0)))) = 6"
    by (simp add: useIdle_mounted_def start_def handleActivity_def useIdle_def default_events_def
        timer_truthy_def setTimeout_def addEventListener_def matches_def browser0_def)
  show ?thesis using f l t a b c
    by (simp add: useScroll_def useWindowSize_def useIdle_def)
qed

section \<open>Properties of useLocalStorage\<close>

text \<open>
  C9 (as stated). \<open>read\<close> would never let an exception out, for all options. It does when
  \<open>onError\<close> throws: the storage is denied, \<open>getItem\<close> throws, the \<open>catch\<close> block calls
  \<open>onError\<close>, and the error that \<open>onError\<close> throws leaves \<open>read\<close>.
\<close>

theorem read_propagates_counterexample:
  "read denied (useLocalStorage parse_digit ''count'' 0
      \<lparr>opt_defaultValue = None, opt_serializer = None, opt_onError = Some rethrow\<rparr>)
   = (Inl (Error ''SecurityError''), [Error ''SecurityError''])"
  by (simp add: read_def read_catch_def useLocalStorage_def denied_def rethrow_def)

lemma read_cases:
  fixes st :: "'a useLocalStorage_state"
  assumes "\<And>e. onError st e = None"
  shows "read getItem st =
     (case getItem (key st) of
        Inl e \<Rightarrow> (Inr (defaultValue st), [e])
      | Inr None \<Rightarrow> (Inr (defaultValue st), [])
      | Inr (Some rawValue) \<Rightarrow>
          (case ser_read (serializer st) rawValue of
             Inl e \<Rightarrow> (Inr (defaultValue st), [e])
           | Inr v \<Rightarrow> (Inr v, [])))"
  using assms by (simp add: read_def read_catch_def split: sum.split option.split)

text \<open>
  C9 (amended). For every key, initial value and options whose \<open>onError\<close>, if one is given,
  does not throw, \<open>read\<close> returns a value and lets no exception out: when \<open>getItem\<close> returns
  \<open>null\<close> it returns the default value; when \<open>getItem\<close> or the serializer throws, the error
  goes to \<open>onError\<close> and the default value is returned; with the default serializer, stored
  text that \<open>JSON.parse\<close> rejects gives the default value as well.
\<close>

theorem read_total:
  assumes "\<forall>f e. opt_onError options = Some f \<longrightarrow> f e = None"
  shows
    "(\<exists>v. fst (read getItem (useLocalStorage JSON_parse k initialValue options)) = Inr v) \<and>
     (getItem k = Inr None \<longrightarrow>
        read getItem (useLocalStorage JSON_parse k initialValue options) =
          (Inr (defaultValue (useLocalStorage JSON_parse k initialValue options)), [])) \<and>
     (\<forall>e. getItem k = Inl e \<longrightarrow>
        read getItem (useLocalStorage JSON_parse k initialValue options) =
          (Inr (defaultValue (useLocalStorage JSON_parse k initialValue options)), [e])) \<and>
     (\<forall>raw e. getItem k = Inr (Some raw) \<and>
          ser_read (serializer (useLocalStorage JSON_parse k initialValue options)) raw = Inl e \<longrightarrow>
        read getItem (useLocalStorage JSON_parse k initialValue options) =
          (Inr (defaultValue (useLocalStorage JSON_parse k initialValue options)), [e])) \<and>
     (\<forall>raw. opt_serializer options = None \<and> getItem k = Inr (Some raw) \<and> JSON_parse raw = None \<longrightarrow>
        read getItem (useLocalStorage JSON_parse k initialValue options) =
          (Inr (defaultValue (useLocalStorage JSON_parse k initialValue options)), [])) \<and>
     defaultValue (useLocalStorage JSON_parse k initialValue options) =
       (case opt_defaultValue options of None \<Rightarrow> initialValue | Some d \<Rightarrow> d)"
proof -
  let ?st = "useLocalStorage JSON_parse k initialValue options"
  have k: "key ?st = k" by (simp add: useLocalStorage_def Let_def)
  have dv: "defaultValue ?st = (case opt_defaultValue options of None \<Rightarrow> initialValue | Some d \<Rightarrow> d)"
    by (simp add: useLocalStorage_def Let_def)
  have oe: "onError ?st e = None" for e
    using assms by (cases "opt_onError options") (simp_all add: useLocalStorage_def Let_def console_error_def)
  note rc = read_cases[of ?st getItem, OF oe, unfolded k]
  have ds: "opt_serializer options = None \<Longrightarrow> JSON_parse raw = None \<Longrightarrow>
      ser_read (serializer ?st) raw = Inr (defaultValue ?st)" for raw
    by (simp add: useLocalStorage_def Let_def default_serializer_def)
  have 1: "\<exists>v. fst (read getItem ?st) = Inr v"
    unfolding rc by (simp split: sum.split option.split)
  have 2: "getItem k = Inr None \<longrightarrow> read getItem ?st = (Inr (defaultValue ?st), [])"
    unfolding rc by simp
  have 3: "\<forall>e. getItem k = Inl e \<longrightarrow> read getItem ?st = (Inr (defaultValue ?st), [e])"
    unfolding rc by simp
  have 4: "\<forall>raw e. getItem k = Inr (Some raw) \<and> ser_read (serializer ?st) raw = Inl e \<longrightarrow>
        read getItem ?st = (Inr (defaultValue ?st), [e])"
    unfolding rc by simp
  have 5: "\<forall>raw. opt_serializer options = None \<and> getItem k = Inr (Some raw) \<and> JSON_parse raw = None \<longrightarrow>
        read getItem ?st = (Inr (defaultValue ?st), [])"
    unfolding rc using ds by simp
  from 1 2 3 4 5 dv show ?thesis by blast
qed

theorem read_total_witness:
  "read denied (useLocalStorage parse_digit ''count'' 0
      \<lparr>opt_defaultValue = Some 7, opt_serializer = None, opt_onError = Some console_error\<rparr>)
     = (Inr 7, [Error ''SecurityError'']) \<and>
   read (\<lambda>k. Inr (Some ''{oops'')) (useLocalStorage parse_digit ''count'' 0
      \<lparr>opt_defaultValue = Some 7, opt_serializer = None, opt_onError = Some console_error\<rparr>)
     = (Inr 7, []) \<and>
   read (\<lambda>k. Inr None) (useLocalStorage parse_digit ''count'' 0
      \<lparr>opt_defaultValue = Some 7, opt_serializer = None, opt_onError = Some console_error\<rparr>)
     = (Inr 7, []) \<and>
   read (\<lambda>k. Inr (Some ''1'')) (useLocalStorage parse_digit ''count'' 0
      \<lparr>opt_defaultValue = Some 7, opt_serializer = None, opt_onError = Some console_error\<rparr>)
     = (Inr 1, [])"
proof -
  let ?o = "\<lparr>opt_defaultValue = Some (7::int), opt_serializer = None, opt_onError = Some console_error\<rparr>"
  have h: "\<forall>f e. opt_onError ?o = Some f \<longrightarrow> f e = None" by (simp add: console_error_def)
  have a: "read denied (useLocalStorage parse_digit ''count'' 0 ?o)
      = (Inr 7, [Error ''SecurityError''])"
    using read_total [OF h, of denied parse_digit "''count''" 0]
    by (simp add: denied_def)
  have b: "read (\<lambda>k. Inr (Some ''{oops'')) (useLocalStorage parse_digit ''count'' 0 ?o)
      = (Inr 7, [])"
    using read_total [OF h, of "\<lambda>k. Inr (Some ''{oops'')" parse_digit "''count''" 0]
    by (simp add: parse_digit_def)
  have c: "read (\<lambda>k. Inr None) (useLocalStorage parse_digit ''count'' 0 ?o) = (Inr 7, [])"
    using read_total [OF h, of "\<lambda>k. Inr None" parse_digit "''count''" 0]
    by simp
  have d: "read (\<lambda>k. Inr (Some ''1'')) (useLocalStorage parse_digit ''count'' 0 ?o)
      = (Inr 1, [])"
    by (simp add: read_def useLocalStorage_def default_serializer_def parse_digit_def)
  from a b c d show ?thesis by simp
qed

section \<open>Properties of useGenerator\<close>

text \<open>
  C10. After each call of \<open>next()\<close> or \<open>reset()\<close>, from whatever state, \<open>history\<close> is not
  empty and its last element is \<open>current\<close>, and so it is after every non-empty sequence of
  such calls on a new instance; \<open>next()\<close> returns the new \<open>current\<close>, which is \<open>getNext\<close> of
  the previous \<open>current\<close>, and makes \<open>history\<close> longer by that one element.
\<close>

theorem generator_invariant:
  "fst (next options s) = current (snd (next options s)) \<and>
   fst (next options s) = fst (getNext options (current s) (closure s)) \<and>
   history (snd (next options s)) = history s @ [fst (next options s)] \<and>
   length (history (snd (next options s))) = length (history s) + 1 \<and>
   history (generator_step options c s) \<noteq> [] \<and>
   last (history (generator_step options c s)) = current (generator_step options c s) \<and>
   history (generator_run options (calls @ [c]) (useGenerator truthy options env)) \<noteq> [] \<and>
   last (history (generator_run options (calls @ [c]) (useGenerator truthy options env))) =
     current (generator_run options (calls @ [c]) (useGenerator truthy options env))"
proof -
  have n: "fst (next options s) = current (snd (next options s)) \<and>
      fst (next options s) = fst (getNext options (current s) (closure s)) \<and>
      history (snd (next options s)) = history s @ [fst (next options s)]" for s
    by (simp add: next_def split: prod.split)
  have st: "history (generator_step options c s) \<noteq> [] \<and>
      last (history (generator_step options c s)) = current (generator_step options c s)" for s
  proof (cases c)
    case Next
    then show ?thesis using n[of s] by simp
  next
    case (Reset v)
    then show ?thesis by (simp add: reset_def split: option.split prod.split)
  qed
  have run: "generator_run options (calls @ [c]) (useGenerator truthy options env) =
      generator_step options c (generator_run options calls (useGenerator truthy options env))"
    by (simp add: generator_run_def)
  have len: "length (history (snd (next options s))) = length (history s) + 1"
    using n[of s] by simp
  from n[of s] len st[of s]
    st[of "generator_run options calls (useGenerator truthy options env)"]
  show ?thesis unfolding run by blast
qed

lemma counter_example_run:
  "history (generator_run (useCounterGenerator_options 1 1) [Next, Next]
      (useGenerator (\<lambda>n. n \<noteq> 0) (useCounterGenerator_options 1 1) ())) = [Some 1, Some 2, Some 3]"
  by (simp add: generator_run_def next_def useGenerator_def useCounterGenerator_options_def)

end
